theory Spec2Isabelle
  imports Main
begin

section \<open>Data (src/main.tsx, lines 50--79)\<close>

text \<open>
  The three schema interfaces all call their string field \<open>name\<close> and the three props
  interfaces all call their number field \<open>index\<close>; record fields are global constants,
  so each is prefixed with the level it belongs to. A TypeScript \<open>number\<close> that holds an
  index is an \<open>int\<close>: the only values the program ever stores are the positions handed
  out by \<open>For\<close> and the literal \<open>-1\<close>.
\<close>

record CellSchema =
  cell_name :: string

record RowSchema =
  row_name :: string
  cells :: "CellSchema list"

record TableSchema =
  table_name :: string
  rows :: "RowSchema list"

record AppContextState =
  table :: int
  row :: int
  cell :: int

text \<open>
  The intersection types \<open>TableProps & TableSchema\<close>, \<open>RowProps & RowSchema\<close> and
  \<open>CellProps & CellSchema\<close>: the schema's fields extended by the position.
\<close>

record TableProps = TableSchema +
  table_index :: int

record RowProps = RowSchema +
  row_index :: int

record CellProps = CellSchema +
  cell_index :: int

text \<open>
  The two stores that \<open>App\<close> creates (lines 86--87): the selection and the tables.
\<close>

record AppStores =
  app :: AppContextState
  tables :: "TableSchema list"

text \<open>
  The two closures of \<open>AppContextActions\<close>, as the calls an event handler makes.
\<close>

datatype Call = HoverCell int int int | HoverReset

text \<open>
  The ambient scope a component is constructed in: one slot per context object. A context
  created without a default value reads as \<open>undefined\<close> outside its provider, which is
  \<open>None\<close> here. The actions half of the \<open>AppContext\<close> pair is the same object for the
  whole life of the view, so the slot holds the selection only.
\<close>

record Scope =
  AppContext :: "AppContextState option"
  TableContext :: "TableProps option"
  RowContext :: "RowProps option"

datatype error = TypeError

text \<open>
  What a \<open>Cell\<close> returns (lines 185--199): the two handlers, the background of its style
  and the three lines of text.
\<close>

record CellView =
  onPointerOver :: Call
  onPointerOut :: Call
  background :: string
  lines :: "string list"

section \<open>The store and its two actions (lines 86--107)\<close>

definition produce :: "('s \<Rightarrow> 's) \<Rightarrow> 's \<Rightarrow> 's" where
  "produce recipe draft = recipe draft"

definition setApp :: "(AppContextState \<Rightarrow> AppContextState) \<Rightarrow> AppStores \<Rightarrow> AppStores" where
  "setApp f s = s\<lparr>app := f (app s)\<rparr>"

definition hoverCell :: "int \<Rightarrow> int \<Rightarrow> int \<Rightarrow> AppStores \<Rightarrow> AppStores" where
  "hoverCell t r c = setApp (produce (\<lambda>a. a\<lparr>table := t, row := r, cell := c\<rparr>))"

definition hoverReset :: "AppStores \<Rightarrow> AppStores" where
  "hoverReset = setApp (produce (\<lambda>a. a\<lparr>table := - 1, row := - 1, cell := - 1\<rparr>))"

definition App_mount :: "TableSchema list \<Rightarrow> AppStores" where
  "App_mount data = \<lparr>app = \<lparr>table = - 1, row = - 1, cell = - 1\<rparr>, tables = data\<rparr>"

fun dispatch :: "Call \<Rightarrow> AppStores \<Rightarrow> AppStores" where
  "dispatch (HoverCell t r c) s = hoverCell t r c s"
| "dispatch HoverReset s = hoverReset s"

fun run :: "Call list \<Rightarrow> AppStores \<Rightarrow> AppStores" where
  "run [] s = s"
| "run (e # es) s = run es (dispatch e s)"

section \<open>The components (lines 81--200)\<close>

definition useApp :: "Scope \<Rightarrow> AppContextState option" where
  "useApp sc = AppContext sc"

definition useTable :: "Scope \<Rightarrow> TableProps option" where
  "useTable sc = TableContext sc"

definition useRow :: "Scope \<Rightarrow> RowProps option" where
  "useRow sc = RowContext sc"

text \<open>
  \<open>For\<close> calls its child function on every entry with the entry's position, counted
  from 0. A child that throws aborts the whole construction.
\<close>

fun For_from :: "nat \<Rightarrow> 'a list \<Rightarrow> ('a \<Rightarrow> int \<Rightarrow> error + 'b) \<Rightarrow> error + 'b list" where
  "For_from i [] f = Inr []"
| "For_from i (x # xs) f =
     (case f x (int i) of
        Inl e \<Rightarrow> Inl e
      | Inr y \<Rightarrow> (case For_from (Suc i) xs f of Inl e \<Rightarrow> Inl e | Inr ys \<Rightarrow> Inr (y # ys)))"

definition For :: "'a list \<Rightarrow> ('a \<Rightarrow> int \<Rightarrow> error + 'b) \<Rightarrow> error + 'b list" where
  "For each f = For_from 0 each f"

text \<open>
  \<open>Cell\<close> (lines 173--200). Each of the three array destructurings throws a TypeError
  when the context it reads was never provided, in the order of the source.
\<close>

definition Cell :: "Scope \<Rightarrow> CellProps \<Rightarrow> error + CellView" where
  "Cell sc props =
     (case useApp sc of
        None \<Rightarrow> Inl TypeError
      | Some a \<Rightarrow>
     (case useTable sc of
        None \<Rightarrow> Inl TypeError
      | Some t \<Rightarrow>
     (case useRow sc of
        None \<Rightarrow> Inl TypeError
      | Some r \<Rightarrow>
          Inr \<lparr>onPointerOver = HoverCell (table_index t) (row_index r) (cell_index props),
               onPointerOut = HoverReset,
               background =
                 (if table a = table_index t \<and> row a = row_index r \<and> cell a = cell_index props
                  then ''skyblue'' else ''none''),
               lines = [''Table: '' @ table_name t, ''Row: '' @ row_name r,
                        ''Cell: '' @ cell_name props]\<rparr>)))"

text \<open>
  The props objects the JSX builds: \<open>index={index()} {...entry}\<close>, the position and then
  the entry's own fields spread after it.
\<close>

definition Cell_props :: "CellSchema \<Rightarrow> int \<Rightarrow> CellProps" where
  "Cell_props c i = \<lparr>cell_name = cell_name c, cell_index = i\<rparr>"

definition Row_props :: "RowSchema \<Rightarrow> int \<Rightarrow> RowProps" where
  "Row_props r i = \<lparr>row_name = row_name r, cells = cells r, row_index = i\<rparr>"

definition Table_props :: "TableSchema \<Rightarrow> int \<Rightarrow> TableProps" where
  "Table_props t i = \<lparr>table_name = table_name t, rows = rows t, table_index = i\<rparr>"

definition Row :: "Scope \<Rightarrow> RowProps \<Rightarrow> error + CellView list" where
  "Row sc props =
     For (cells props) (\<lambda>c index. Cell (sc\<lparr>RowContext := Some props\<rparr>) (Cell_props c index))"

definition Table :: "Scope \<Rightarrow> TableProps \<Rightarrow> error + CellView list list" where
  "Table sc props =
     For (rows props) (\<lambda>r index. Row (sc\<lparr>TableContext := Some props\<rparr>) (Row_props r index))"

definition App :: "AppStores \<Rightarrow> error + CellView list list list" where
  "App s =
     For (tables s)
       (\<lambda>t index. Table \<lparr>AppContext = Some (app s), TableContext = None, RowContext = None\<rparr>
                     (Table_props t index))"

text \<open>
  Reading the rendered tree: a cell is highlighted when its background is the highlight
  colour; the cells of a tree are its leaves in document order.
\<close>

definition highlighted :: "CellView \<Rightarrow> bool" where
  "highlighted v = (background v = ''skyblue'')"

definition rendered_cells :: "CellView list list list \<Rightarrow> CellView list" where
  "rendered_cells vs = concat (concat vs)"

text \<open>
  A coordinate of an existing cell of a dataset, and the invariant of the selection.
\<close>

definition valid_coord :: "TableSchema list \<Rightarrow> int \<Rightarrow> int \<Rightarrow> int \<Rightarrow> bool" where
  "valid_coord d t r c =
     (0 \<le> t \<and> t < int (length d) \<and>
      0 \<le> r \<and> r < int (length (rows (d ! nat t))) \<and>
      0 \<le> c \<and> c < int (length (cells (rows (d ! nat t) ! nat r))))"

fun valid_call :: "TableSchema list \<Rightarrow> Call \<Rightarrow> bool" where
  "valid_call d (HoverCell t r c) = valid_coord d t r c"
| "valid_call d HoverReset = True"

definition Selection_inv :: "TableSchema list \<Rightarrow> AppContextState \<Rightarrow> bool" where
  "Selection_inv d a =
     ((table a = - 1 \<and> row a = - 1 \<and> cell a = - 1) \<or>
      valid_coord d (table a) (row a) (cell a))"

text \<open>The dataset of the specification's scenario.\<close>

definition scenario :: "TableSchema list" where
  "scenario =
     [\<lparr>table_name = ''T0'',
       rows = [\<lparr>row_name = ''R0'',
                cells = [\<lparr>cell_name = ''C0''\<rparr>, \<lparr>cell_name = ''C1''\<rparr>]\<rparr>]\<rparr>]"

section \<open>Helper lemmas: the store\<close>

lemma app_hoverCell: "app (hoverCell t r c s) = \<lparr>table = t, row = r, cell = c\<rparr>"
  by (simp add: hoverCell_def setApp_def produce_def)

lemma app_hoverReset: "app (hoverReset s) = \<lparr>table = - 1, row = - 1, cell = - 1\<rparr>"
  by (simp add: hoverReset_def setApp_def produce_def)

lemma tables_hoverCell: "tables (hoverCell t r c s) = tables s"
  by (simp add: hoverCell_def setApp_def)

lemma tables_hoverReset: "tables (hoverReset s) = tables s"
  by (simp add: hoverReset_def setApp_def)

lemma tables_dispatch: "tables (dispatch e s) = tables s"
  by (cases e) (simp_all add: tables_hoverCell tables_hoverReset)

lemma tables_run: "tables (run es s) = tables s"
  by (induction es arbitrary: s) (simp_all add: tables_dispatch)

lemma inv_dispatch:
  "valid_call d e \<Longrightarrow> Selection_inv d (app (dispatch e s))"
  by (cases e) (simp_all add: app_hoverCell app_hoverReset Selection_inv_def)

lemma inv_run:
  "list_all (valid_call d) es \<Longrightarrow> Selection_inv d (app s) \<Longrightarrow> Selection_inv d (app (run es s))"
  by (induction es arbitrary: s) (simp_all add: inv_dispatch)


section \<open>Helper lemmas: lists and \<open>For\<close>\<close>

lemma For_from_spec:
  "(\<And>k. k < length xs \<Longrightarrow> \<exists>y. f (xs ! k) (int (i + k)) = Inr y \<and> P (i + k) y) \<Longrightarrow>
   \<exists>ys. For_from i xs f = Inr ys \<and> length ys = length xs \<and> (\<forall>k<length xs. P (i + k) (ys ! k))"
proof (induction xs arbitrary: i)
  case Nil
  show ?case by simp
next
  case (Cons x xs)
  from Cons.prems [of 0] obtain y where y: "f x (int i) = Inr y" "P i y"
    by auto
  have "\<exists>ys. For_from (Suc i) xs f = Inr ys \<and> length ys = length xs \<and>
          (\<forall>k<length xs. P (Suc i + k) (ys ! k))"
  proof (rule Cons.IH)
    fix k assume "k < length xs"
    with Cons.prems [of "Suc k"] show "\<exists>y. f (xs ! k) (int (Suc i + k)) = Inr y \<and> P (Suc i + k) y"
      by simp
  qed
  then obtain ys where ys: "For_from (Suc i) xs f = Inr ys" "length ys = length xs"
      "\<forall>k<length xs. P (Suc i + k) (ys ! k)"
    by blast
  have "\<forall>k<length (x # xs). P (i + k) ((y # ys) ! k)"
  proof (intro allI impI)
    fix k assume "k < length (x # xs)"
    then show "P (i + k) ((y # ys) ! k)"
      using y(2) ys(3) by (cases k) simp_all
  qed
  with y(1) ys(1,2) show ?case by simp
qed

lemma For_spec:
  assumes "\<And>k. k < length xs \<Longrightarrow> \<exists>y. f (xs ! k) (int k) = Inr y \<and> P k y"
  shows "\<exists>ys. For xs f = Inr ys \<and> length ys = length xs \<and> (\<forall>k<length xs. P k (ys ! k))"
  using For_from_spec [of xs f 0 P] assms by (simp add: For_def)

lemma filter_none_nth: "(\<And>j. j < length xs \<Longrightarrow> \<not> P (xs ! j)) \<Longrightarrow> filter P xs = []"
  by (auto simp: filter_empty_conv in_set_conv_nth)

lemma filter_single_nth:
  assumes "i < length xs" and "\<And>j. j < length xs \<Longrightarrow> P (xs ! j) \<longleftrightarrow> j = i"
  shows "filter P xs = [xs ! i]"
proof -
  have a: "filter P (take i xs) = []"
    using assms by (intro filter_none_nth) simp
  have b: "filter P (drop (Suc i) xs) = []"
    using assms by (intro filter_none_nth) simp
  have "filter P xs = filter P (take i xs @ xs ! i # drop (Suc i) xs)"
    using assms(1) by (simp add: id_take_nth_drop [symmetric])
  also have "\<dots> = [xs ! i]"
    using a b assms by simp
  finally show ?thesis .
qed

lemma concat_none_nth: "(\<And>j. j < length xss \<Longrightarrow> xss ! j = []) \<Longrightarrow> concat xss = []"
  by (auto simp: in_set_conv_nth)

lemma concat_single_nth:
  assumes "i < length xss" and "\<And>j. j < length xss \<Longrightarrow> j \<noteq> i \<Longrightarrow> xss ! j = []"
  shows "concat xss = xss ! i"
proof -
  have a: "concat (take i xss) = []"
    using assms by (intro concat_none_nth) simp
  have b: "concat (drop (Suc i) xss) = []"
    using assms by (intro concat_none_nth) simp
  have "concat xss = concat (take i xss @ xss ! i # drop (Suc i) xss)"
    using assms(1) by (simp add: id_take_nth_drop [symmetric])
  also have "\<dots> = concat (take i xss) @ xss ! i @ concat (drop (Suc i) xss)"
    by simp
  also have "\<dots> = xss ! i"
    unfolding a b by simp
  finally show ?thesis .
qed

lemma filter_concat_eq: "filter P (concat xss) = concat (map (filter P) xss)"
  by (induction xss) simp_all

lemma filter_single_nested2:
  assumes "r < length xss" "c < length (xss ! r)"
    and "\<And>r' c'. r' < length xss \<Longrightarrow> c' < length (xss ! r') \<Longrightarrow>
           P (xss ! r' ! c') \<longleftrightarrow> (r' = r \<and> c' = c)"
  shows "filter P (concat xss) = [xss ! r ! c]"
proof -
  have "concat (map (filter P) xss) = map (filter P) xss ! r"
  proof (rule concat_single_nth)
    show "r < length (map (filter P) xss)" using assms(1) by simp
  next
    fix j assume "j < length (map (filter P) xss)" "j \<noteq> r"
    then show "map (filter P) xss ! j = []"
      using assms(3) by (simp add: filter_none_nth)
  qed
  also have "\<dots> = filter P (xss ! r)" using assms(1) by simp
  also have "\<dots> = [xss ! r ! c]"
    using assms by (intro filter_single_nth) simp_all
  finally show ?thesis by (simp add: filter_concat_eq)
qed

lemma filter_none_nested2:
  assumes "\<And>r' c'. r' < length xss \<Longrightarrow> c' < length (xss ! r') \<Longrightarrow> \<not> P (xss ! r' ! c')"
  shows "filter P (concat xss) = []"
  using assms by (auto simp: filter_empty_conv in_set_conv_nth)

lemma filter_single_nested3:
  assumes "t < length vs" "r < length (vs ! t)" "c < length (vs ! t ! r)"
    and "\<And>t' r' c'. t' < length vs \<Longrightarrow> r' < length (vs ! t') \<Longrightarrow> c' < length (vs ! t' ! r') \<Longrightarrow>
           P (vs ! t' ! r' ! c') \<longleftrightarrow> (t' = t \<and> r' = r \<and> c' = c)"
  shows "filter P (concat (concat vs)) = [vs ! t ! r ! c]"
proof -
  let ?f = "\<lambda>xss. filter P (concat xss)"
  have flat: "filter P (concat (concat vs)) = concat (map ?f vs)"
    by (induction vs) simp_all
  have "concat (map ?f vs) = map ?f vs ! t"
  proof (rule concat_single_nth)
    show "t < length (map ?f vs)" using assms(1) by simp
  next
    fix j assume "j < length (map ?f vs)" "j \<noteq> t"
    then show "map ?f vs ! j = []"
      using assms(4) by (simp add: filter_none_nested2)
  qed
  also have "\<dots> = filter P (concat (vs ! t))" using assms(1) by simp
  also have "\<dots> = [vs ! t ! r ! c]"
    using assms by (intro filter_single_nested2) simp_all
  finally show ?thesis by (simp add: flat)
qed

lemma filter_none_nested3:
  assumes "\<And>t' r' c'. t' < length vs \<Longrightarrow> r' < length (vs ! t') \<Longrightarrow> c' < length (vs ! t' ! r') \<Longrightarrow>
           \<not> P (vs ! t' ! r' ! c')"
  shows "filter P (concat (concat vs)) = []"
  using assms by (auto simp: filter_empty_conv in_set_conv_nth)

section \<open>Helper lemmas: the shape of the rendered tree\<close>

lemma Cell_provided:
  assumes "AppContext sc = Some a" "TableContext sc = Some t" "RowContext sc = Some r"
  shows "\<exists>v. Cell sc props = Inr v \<and>
           highlighted v = (table a = table_index t \<and> row a = row_index r \<and> cell a = cell_index props) \<and>
           onPointerOver v = HoverCell (table_index t) (row_index r) (cell_index props) \<and>
           onPointerOut v = HoverReset \<and>
           lines v = [''Table: '' @ table_name t, ''Row: '' @ row_name r, ''Cell: '' @ cell_name props]"
  using assms by (simp add: Cell_def useApp_def useTable_def useRow_def highlighted_def)

lemma Row_shape:
  assumes "AppContext sc = Some a" "TableContext sc = Some t"
  shows "\<exists>vs. Row sc props = Inr vs \<and> length vs = length (cells props) \<and>
           (\<forall>k<length (cells props).
              highlighted (vs ! k) =
                (table a = table_index t \<and> row a = row_index props \<and> cell a = int k) \<and>
              onPointerOver (vs ! k) = HoverCell (table_index t) (row_index props) (int k) \<and>
              lines (vs ! k) =
                [''Table: '' @ table_name t, ''Row: '' @ row_name props,
                 ''Cell: '' @ cell_name (cells props ! k)])"
  unfolding Row_def
proof (rule For_spec)
  fix k assume "k < length (cells props)"
  let ?sc = "sc\<lparr>RowContext := Some props\<rparr>"
  have "AppContext ?sc = Some a" "TableContext ?sc = Some t" "RowContext ?sc = Some props"
    using assms by simp_all
  from Cell_provided [OF this, of "Cell_props (cells props ! k) (int k)"]
  show "\<exists>y. Cell ?sc (Cell_props (cells props ! k) (int k)) = Inr y \<and>
          (highlighted y = (table a = table_index t \<and> row a = row_index props \<and> cell a = int k) \<and>
           onPointerOver y = HoverCell (table_index t) (row_index props) (int k) \<and>
           lines y =
             [''Table: '' @ table_name t, ''Row: '' @ row_name props,
              ''Cell: '' @ cell_name (cells props ! k)])"
    by (auto simp: Cell_props_def)
qed

lemma Table_shape:
  assumes "AppContext sc = Some a"
  shows "\<exists>vs. Table sc props = Inr vs \<and> length vs = length (rows props) \<and>
           (\<forall>j<length (rows props).
              length (vs ! j) = length (cells (rows props ! j)) \<and>
              (\<forall>k<length (cells (rows props ! j)).
                 highlighted (vs ! j ! k) =
                   (table a = table_index props \<and> row a = int j \<and> cell a = int k) \<and>
                 onPointerOver (vs ! j ! k) = HoverCell (table_index props) (int j) (int k) \<and>
                 lines (vs ! j ! k) =
                   [''Table: '' @ table_name props, ''Row: '' @ row_name (rows props ! j),
                    ''Cell: '' @ cell_name (cells (rows props ! j) ! k)]))"
  unfolding Table_def
proof (rule For_spec)
  fix j assume "j < length (rows props)"
  let ?sc = "sc\<lparr>TableContext := Some props\<rparr>"
  have "AppContext ?sc = Some a" "TableContext ?sc = Some props"
    using assms by simp_all
  from Row_shape [OF this, of "Row_props (rows props ! j) (int j)"]
  show "\<exists>y. Row ?sc (Row_props (rows props ! j) (int j)) = Inr y \<and>
          (length y = length (cells (rows props ! j)) \<and>
           (\<forall>k<length (cells (rows props ! j)).
              highlighted (y ! k) =
                (table a = table_index props \<and> row a = int j \<and> cell a = int k) \<and>
              onPointerOver (y ! k) = HoverCell (table_index props) (int j) (int k) \<and>
              lines (y ! k) =
                [''Table: '' @ table_name props, ''Row: '' @ row_name (rows props ! j),
                 ''Cell: '' @ cell_name (cells (rows props ! j) ! k)]))"
    by (simp add: Row_props_def)
qed

lemma App_shape:
  "\<exists>vs. App s = Inr vs \<and> length vs = length (tables s) \<and>
     (\<forall>i<length (tables s).
        length (vs ! i) = length (rows (tables s ! i)) \<and>
        (\<forall>j<length (rows (tables s ! i)).
           length (vs ! i ! j) = length (cells (rows (tables s ! i) ! j)) \<and>
           (\<forall>k<length (cells (rows (tables s ! i) ! j)).
              highlighted (vs ! i ! j ! k) =
                (table (app s) = int i \<and> row (app s) = int j \<and> cell (app s) = int k) \<and>
              onPointerOver (vs ! i ! j ! k) = HoverCell (int i) (int j) (int k) \<and>
              lines (vs ! i ! j ! k) =
                [''Table: '' @ table_name (tables s ! i),
                 ''Row: '' @ row_name (rows (tables s ! i) ! j),
                 ''Cell: '' @ cell_name (cells (rows (tables s ! i) ! j) ! k)])))"
  unfolding App_def
proof (rule For_spec)
  fix i assume "i < length (tables s)"
  let ?sc = "\<lparr>AppContext = Some (app s), TableContext = None, RowContext = None\<rparr>"
  have "AppContext ?sc = Some (app s)" by simp
  from Table_shape [OF this, of "Table_props (tables s ! i) (int i)"]
  show "\<exists>y. Table ?sc (Table_props (tables s ! i) (int i)) = Inr y \<and>
        (length y = length (rows (tables s ! i)) \<and>
        (\<forall>j<length (rows (tables s ! i)).
           length (y ! j) = length (cells (rows (tables s ! i) ! j)) \<and>
           (\<forall>k<length (cells (rows (tables s ! i) ! j)).
              highlighted (y ! j ! k) =
                (table (app s) = int i \<and> row (app s) = int j \<and> cell (app s) = int k) \<and>
              onPointerOver (y ! j ! k) = HoverCell (int i) (int j) (int k) \<and>
              lines (y ! j ! k) =
                [''Table: '' @ table_name (tables s ! i),
                 ''Row: '' @ row_name (rows (tables s ! i) ! j),
                 ''Cell: '' @ cell_name (cells (rows (tables s ! i) ! j) ! k)])))"
    by (simp add: Table_props_def)
qed

section \<open>Helper lemmas: the children of a rendered node\<close>

lemma For_children:
  assumes "\<And>k. k < length xs \<Longrightarrow> \<exists>y. f (xs ! k) (int k) = Inr y"
  shows "\<exists>ys. For xs f = Inr ys \<and> length ys = length xs \<and>
           (\<forall>k<length xs. f (xs ! k) (int k) = Inr (ys ! k))"
proof (rule For_spec)
  fix k assume "k < length xs"
  from assms [OF this] show "\<exists>y. f (xs ! k) (int k) = Inr y \<and> f (xs ! k) (int k) = Inr y"
    by blast
qed

lemma Row_children:
  assumes "AppContext sc = Some a" "TableContext sc = Some t"
  shows "\<exists>vs. Row sc props = Inr vs \<and> length vs = length (cells props) \<and>
           (\<forall>k<length (cells props).
              Cell (sc\<lparr>RowContext := Some props\<rparr>)
                \<lparr>cell_name = cell_name (cells props ! k), cell_index = int k\<rparr> = Inr (vs ! k))"
proof -
  let ?sc = "sc\<lparr>RowContext := Some props\<rparr>"
  have sc: "AppContext ?sc = Some a" "TableContext ?sc = Some t" "RowContext ?sc = Some props"
    using assms by simp_all
  have "\<exists>ys. For (cells props) (\<lambda>c index. Cell ?sc (Cell_props c index)) = Inr ys \<and>
          length ys = length (cells props) \<and>
          (\<forall>k<length (cells props).
             Cell ?sc (Cell_props (cells props ! k) (int k)) = Inr (ys ! k))"
  proof (rule For_children)
    fix k assume "k < length (cells props)"
    from Cell_provided [OF sc, of "Cell_props (cells props ! k) (int k)"]
    show "\<exists>y. Cell ?sc (Cell_props (cells props ! k) (int k)) = Inr y"
      by blast
  qed
  then show ?thesis
    by (simp add: Row_def Cell_props_def)
qed

lemma Table_children:
  assumes "AppContext sc = Some a"
  shows "\<exists>vss. Table sc props = Inr vss \<and> length vss = length (rows props) \<and>
           (\<forall>j<length (rows props).
              Row (sc\<lparr>TableContext := Some props\<rparr>)
                \<lparr>row_name = row_name (rows props ! j), cells = cells (rows props ! j),
                 row_index = int j\<rparr> = Inr (vss ! j))"
proof -
  let ?sc = "sc\<lparr>TableContext := Some props\<rparr>"
  have sc: "AppContext ?sc = Some a" "TableContext ?sc = Some props"
    using assms by simp_all
  have "\<exists>ys. For (rows props) (\<lambda>r index. Row ?sc (Row_props r index)) = Inr ys \<and>
          length ys = length (rows props) \<and>
          (\<forall>j<length (rows props).
             Row ?sc (Row_props (rows props ! j) (int j)) = Inr (ys ! j))"
  proof (rule For_children)
    fix j assume "j < length (rows props)"
    from Row_shape [OF sc, of "Row_props (rows props ! j) (int j)"]
    show "\<exists>y. Row ?sc (Row_props (rows props ! j) (int j)) = Inr y"
      by blast
  qed
  then show ?thesis
    by (simp add: Table_def Row_props_def)
qed

section \<open>Helper lemmas: the scenario, evaluated\<close>

lemma scenario_hover:
  "App (hoverCell 0 0 1 (App_mount scenario)) =
     Inr [[[\<lparr>onPointerOver = HoverCell 0 0 0, onPointerOut = HoverReset, background = ''none'',
             lines = [''Table: T0'', ''Row: R0'', ''Cell: C0'']\<rparr>,
            \<lparr>onPointerOver = HoverCell 0 0 1, onPointerOut = HoverReset, background = ''skyblue'',
             lines = [''Table: T0'', ''Row: R0'', ''Cell: C1'']\<rparr>]]]"
  by (simp add: App_def For_def Table_def Row_def Cell_def useApp_def useTable_def useRow_def
      Table_props_def Row_props_def Cell_props_def scenario_def App_mount_def app_hoverCell
      tables_hoverCell)

lemma scenario_reset:
  "App (hoverReset (hoverCell 0 0 1 (App_mount scenario))) =
     Inr [[[\<lparr>onPointerOver = HoverCell 0 0 0, onPointerOut = HoverReset, background = ''none'',
             lines = [''Table: T0'', ''Row: R0'', ''Cell: C0'']\<rparr>,
            \<lparr>onPointerOver = HoverCell 0 0 1, onPointerOut = HoverReset, background = ''none'',
             lines = [''Table: T0'', ''Row: R0'', ''Cell: C1'']\<rparr>]]]"
  by (simp add: App_def For_def Table_def Row_def Cell_def useApp_def useTable_def useRow_def
      Table_props_def Row_props_def Cell_props_def scenario_def App_mount_def app_hoverReset
      tables_hoverCell tables_hoverReset)

lemma scenario_mount:
  "App (App_mount scenario) =
     Inr [[[\<lparr>onPointerOver = HoverCell 0 0 0, onPointerOut = HoverReset, background = ''none'',
             lines = [''Table: T0'', ''Row: R0'', ''Cell: C0'']\<rparr>,
            \<lparr>onPointerOver = HoverCell 0 0 1, onPointerOut = HoverReset, background = ''none'',
             lines = [''Table: T0'', ''Row: R0'', ''Cell: C1'']\<rparr>]]]"
  by (simp add: App_def For_def Table_def Row_def Cell_def useApp_def useTable_def useRow_def
      Table_props_def Row_props_def Cell_props_def scenario_def App_mount_def)

section \<open>Helper lemma: a selection of \<open>-1\<close> highlights nothing\<close>

lemma none_selected:
  assumes "table (app s) = - 1"
  shows "\<exists>vs. App s = Inr vs \<and> filter highlighted (rendered_cells vs) = []"
proof -
  from App_shape [of s] obtain vs where vs: "App s = Inr vs" "length vs = length (tables s)"
    and shape: "\<forall>i<length (tables s).
        length (vs ! i) = length (rows (tables s ! i)) \<and>
        (\<forall>j<length (rows (tables s ! i)).
           length (vs ! i ! j) = length (cells (rows (tables s ! i) ! j)) \<and>
           (\<forall>k<length (cells (rows (tables s ! i) ! j)). \<not> highlighted (vs ! i ! j ! k)))"
    unfolding assms by auto
  have "\<not> highlighted (vs ! i ! j ! k)"
    if "i < length vs" "j < length (vs ! i)" "k < length (vs ! i ! j)" for i j k
    using that vs(2) shape by simp
  then have "filter highlighted (rendered_cells vs) = []"
    unfolding rendered_cells_def by (rule filter_none_nested3)
  with vs(1) show ?thesis by blast
qed

section \<open>Helper lemmas: what a selection highlights\<close>

lemma one_selected:
  assumes sel: "table (app s) = int t" "row (app s) = int r" "cell (app s) = int c"
    and bounds: "t < length (tables s)" "r < length (rows (tables s ! t))"
      "c < length (cells (rows (tables s ! t) ! r))"
  shows "\<exists>vs. App s = Inr vs \<and>
            t < length vs \<and> r < length (vs ! t) \<and> c < length (vs ! t ! r) \<and>
            onPointerOver (vs ! t ! r ! c) = HoverCell (int t) (int r) (int c) \<and>
            filter highlighted (rendered_cells vs) = [vs ! t ! r ! c] \<and>
            (\<forall>i j k. i < length vs \<and> j < length (vs ! i) \<and> k < length (vs ! i ! j) \<longrightarrow>
               highlighted (vs ! i ! j ! k) = (i = t \<and> j = r \<and> k = c))"
proof -
  from App_shape [of s] obtain vs where vs: "App s = Inr vs" "length vs = length (tables s)"
    and shape: "\<forall>i<length (tables s).
        length (vs ! i) = length (rows (tables s ! i)) \<and>
        (\<forall>j<length (rows (tables s ! i)).
           length (vs ! i ! j) = length (cells (rows (tables s ! i) ! j)) \<and>
           (\<forall>k<length (cells (rows (tables s ! i) ! j)).
              highlighted (vs ! i ! j ! k) = (i = t \<and> j = r \<and> k = c) \<and>
              onPointerOver (vs ! i ! j ! k) = HoverCell (int i) (int j) (int k)))"
    unfolding sel by auto
  have b: "t < length vs" "r < length (vs ! t)" "c < length (vs ! t ! r)"
    using bounds vs(2) shape by simp_all
  have hl: "highlighted (vs ! i ! j ! k) = (i = t \<and> j = r \<and> k = c)"
    if "i < length vs" "j < length (vs ! i)" "k < length (vs ! i ! j)" for i j k
    using that vs(2) shape by simp
  have one: "filter highlighted (rendered_cells vs) = [vs ! t ! r ! c]"
    unfolding rendered_cells_def using b hl by (rule filter_single_nested3)
  have over: "onPointerOver (vs ! t ! r ! c) = HoverCell (int t) (int r) (int c)"
    using bounds shape by simp
  show ?thesis
    using vs(1) b one over hl by blast
qed

lemma inv_highlights:
  assumes "Selection_inv (tables s) (app s)"
  shows "\<exists>vs. App s = Inr vs \<and>
           length (filter highlighted (rendered_cells vs)) = (if table (app s) = - 1 then 0 else 1)"
proof (cases "table (app s) = - 1")
  case True
  from none_selected [OF True] show ?thesis using True by auto
next
  case False
  with assms have v: "valid_coord (tables s) (table (app s)) (row (app s)) (cell (app s))"
    by (auto simp: Selection_inv_def)
  let ?t = "nat (table (app s))" and ?r = "nat (row (app s))" and ?c = "nat (cell (app s))"
  have sel: "table (app s) = int ?t" "row (app s) = int ?r" "cell (app s) = int ?c"
    using v by (simp_all add: valid_coord_def)
  have bounds: "?t < length (tables s)" "?r < length (rows (tables s ! ?t))"
      "?c < length (cells (rows (tables s ! ?t) ! ?r))"
    using v by (simp_all add: valid_coord_def nat_less_iff)
  from one_selected [OF sel bounds] show ?thesis using False by auto
qed

section \<open>The claims\<close>

text \<open>
  C1. For every coordinate \<open>(t, r, c)\<close> of an existing cell of the tables store, the tree
  rendered after \<open>hoverCell t r c\<close> has exactly one highlighted cell: the one at position
  \<open>t\<close>, \<open>r\<close>, \<open>c\<close>, whose pointer-enter handler reports exactly that ambient table index,
  row index and own index. Every other rendered cell is not highlighted. In general a
  cell constructed inside all three scopes is highlighted iff the three fields of the
  selection equal its ambient table index, its ambient row index and its own index.
\<close>

theorem hover_highlights_one:
  assumes "t < length (tables s)" "r < length (rows (tables s ! t))"
    and "c < length (cells (rows (tables s ! t) ! r))"
  shows "(\<exists>vs. App (hoverCell (int t) (int r) (int c) s) = Inr vs \<and>
            t < length vs \<and> r < length (vs ! t) \<and> c < length (vs ! t ! r) \<and>
            onPointerOver (vs ! t ! r ! c) = HoverCell (int t) (int r) (int c) \<and>
            filter highlighted (rendered_cells vs) = [vs ! t ! r ! c] \<and>
            (\<forall>i j k. i < length vs \<and> j < length (vs ! i) \<and> k < length (vs ! i ! j) \<longrightarrow>
               highlighted (vs ! i ! j ! k) = (i = t \<and> j = r \<and> k = c))) \<and>
         (\<forall>sc props a tp rp.
            AppContext sc = Some a \<and> TableContext sc = Some tp \<and> RowContext sc = Some rp \<longrightarrow>
            (\<exists>v. Cell sc props = Inr v \<and>
                 highlighted v =
                   (table a = table_index tp \<and> row a = row_index rp \<and> cell a = cell_index props)))"
proof (intro conjI allI impI)
  let ?s = "hoverCell (int t) (int r) (int c) s"
  have sel: "table (app ?s) = int t" "row (app ?s) = int r" "cell (app ?s) = int c"
    by (simp_all add: app_hoverCell)
  have bounds: "t < length (tables ?s)" "r < length (rows (tables ?s ! t))"
      "c < length (cells (rows (tables ?s ! t) ! r))"
    using assms by (simp_all add: tables_hoverCell)
  show "\<exists>vs. App ?s = Inr vs \<and>
            t < length vs \<and> r < length (vs ! t) \<and> c < length (vs ! t ! r) \<and>
            onPointerOver (vs ! t ! r ! c) = HoverCell (int t) (int r) (int c) \<and>
            filter highlighted (rendered_cells vs) = [vs ! t ! r ! c] \<and>
            (\<forall>i j k. i < length vs \<and> j < length (vs ! i) \<and> k < length (vs ! i ! j) \<longrightarrow>
               highlighted (vs ! i ! j ! k) = (i = t \<and> j = r \<and> k = c))"
    by (rule one_selected [OF sel bounds])
next
  fix sc :: Scope and props :: CellProps and a tp rp
  assume "AppContext sc = Some a \<and> TableContext sc = Some tp \<and> RowContext sc = Some rp"
  then have "AppContext sc = Some a" "TableContext sc = Some tp" "RowContext sc = Some rp"
    by simp_all
  from Cell_provided [OF this, of props]
  show "\<exists>v. Cell sc props = Inr v \<and>
          highlighted v =
            (table a = table_index tp \<and> row a = row_index rp \<and> cell a = cell_index props)"
    by blast
qed

theorem hover_highlights_one_witness:
  "(0::nat) < length (tables (App_mount scenario)) \<and>
   (0::nat) < length (rows (tables (App_mount scenario) ! 0)) \<and>
   (1::nat) < length (cells (rows (tables (App_mount scenario) ! 0) ! 0)) \<and>
   (\<exists>vs. App (hoverCell 0 0 1 (App_mount scenario)) = Inr vs \<and>
      filter highlighted (rendered_cells vs) = [vs ! 0 ! 0 ! 1] \<and>
      lines (vs ! 0 ! 0 ! 1) = [''Table: T0'', ''Row: R0'', ''Cell: C1''] \<and>
      length (rendered_cells vs) = 2)"
proof -
  have h1: "(0::nat) < length (tables (App_mount scenario))"
    by (simp add: App_mount_def scenario_def)
  have h2: "(0::nat) < length (rows (tables (App_mount scenario) ! 0))"
    by (simp add: App_mount_def scenario_def)
  have h3: "(1::nat) < length (cells (rows (tables (App_mount scenario) ! 0) ! 0))"
    by (simp add: App_mount_def scenario_def)
  show ?thesis
    using h1 h2 h3 hover_highlights_one [OF h1 h2 h3]
    by (simp add: scenario_hover rendered_cells_def)
qed

text \<open>
  C2, as the specification states it: a parent hands each child its position only, and the
  child's own name and sub-sequence do not travel through the parent's render call. The
  props object a \<open>Table\<close> builds for a \<open>Row\<close> does carry the row's name and cells, the one a
  \<open>Row\<close> builds for a \<open>Cell\<close> carries the cell's name, and two rows rendered at the same
  position in the same scope differ when only these props differ.
\<close>

theorem child_props_counterexample:
  "Row_props \<lparr>row_name = ''R0'', cells = [\<lparr>cell_name = ''C0''\<rparr>, \<lparr>cell_name = ''C1''\<rparr>]\<rparr> 0 =
     \<lparr>row_name = ''R0'', cells = [\<lparr>cell_name = ''C0''\<rparr>, \<lparr>cell_name = ''C1''\<rparr>], row_index = 0\<rparr> \<and>
   Row_props \<lparr>row_name = ''R0'', cells = [\<lparr>cell_name = ''C0''\<rparr>, \<lparr>cell_name = ''C1''\<rparr>]\<rparr> 0 \<noteq>
     Row_props \<lparr>row_name = ''R1'', cells = []\<rparr> 0 \<and>
   Cell_props \<lparr>cell_name = ''C1''\<rparr> 1 = \<lparr>cell_name = ''C1'', cell_index = 1\<rparr> \<and>
   Cell_props \<lparr>cell_name = ''C1''\<rparr> 1 \<noteq> Cell_props \<lparr>cell_name = ''C0''\<rparr> 1 \<and>
   Row \<lparr>AppContext = Some \<lparr>table = - 1, row = - 1, cell = - 1\<rparr>,
        TableContext = Some (Table_props (scenario ! 0) 0), RowContext = None\<rparr>
     (Row_props \<lparr>row_name = ''R0'', cells = [\<lparr>cell_name = ''C0''\<rparr>, \<lparr>cell_name = ''C1''\<rparr>]\<rparr> 0) \<noteq>
   Row \<lparr>AppContext = Some \<lparr>table = - 1, row = - 1, cell = - 1\<rparr>,
        TableContext = Some (Table_props (scenario ! 0) 0), RowContext = None\<rparr>
     (Row_props \<lparr>row_name = ''R1'', cells = []\<rparr> 0)"
  by (simp add: Row_props_def Cell_props_def Row_def For_def Cell_def useApp_def useTable_def
      useRow_def Table_props_def scenario_def)

text \<open>
  C2, amended: a parent hands each child its position together with the entry's own
  fields. The \<open>j\<close>-th child of a rendered \<open>Table\<close> is the \<open>Row\<close> constructed from the props
  index \<open>j\<close>, name and cells of the \<open>j\<close>-th entry of \<open>rows\<close>, and its \<open>k\<close>-th child is the
  \<open>Cell\<close> constructed from the props index \<open>k\<close> and name of the \<open>k\<close>-th entry of those
  cells, each in the scope extended by the parent's own props. The rendered cell shows
  the names and reports the positions that were passed this way, and is highlighted iff
  the selection equals them.
\<close>

theorem child_props_amended:
  assumes "AppContext sc = Some a"
  shows "\<exists>vss. Table sc tp = Inr vss \<and> length vss = length (rows tp) \<and>
           (\<forall>j<length (rows tp).
              Row (sc\<lparr>TableContext := Some tp\<rparr>)
                \<lparr>row_name = row_name (rows tp ! j), cells = cells (rows tp ! j),
                 row_index = int j\<rparr> = Inr (vss ! j) \<and>
              length (vss ! j) = length (cells (rows tp ! j)) \<and>
              (\<forall>k<length (cells (rows tp ! j)).
                 Cell (sc\<lparr>TableContext := Some tp,
                          RowContext := Some \<lparr>row_name = row_name (rows tp ! j),
                            cells = cells (rows tp ! j), row_index = int j\<rparr>\<rparr>)
                   \<lparr>cell_name = cell_name (cells (rows tp ! j) ! k), cell_index = int k\<rparr> =
                   Inr (vss ! j ! k) \<and>
                 onPointerOver (vss ! j ! k) = HoverCell (table_index tp) (int j) (int k) \<and>
                 highlighted (vss ! j ! k) =
                   (table a = table_index tp \<and> row a = int j \<and> cell a = int k) \<and>
                 lines (vss ! j ! k) =
                   [''Table: '' @ table_name tp, ''Row: '' @ row_name (rows tp ! j),
                    ''Cell: '' @ cell_name (cells (rows tp ! j) ! k)]))"
proof -
  let ?sc = "sc\<lparr>TableContext := Some tp\<rparr>"
  let ?rp = "\<lambda>j. \<lparr>row_name = row_name (rows tp ! j), cells = cells (rows tp ! j),
                 row_index = int j\<rparr>"
  have sc: "AppContext ?sc = Some a" "TableContext ?sc = Some tp"
    using assms by simp_all
  from Table_children [OF assms, of tp] obtain vss where
    vss: "Table sc tp = Inr vss" "length vss = length (rows tp)"
    and kids: "\<forall>j<length (rows tp). Row ?sc (?rp j) = Inr (vss ! j)"
    by blast
  from Table_shape [OF assms, of tp] vss(1) have shape:
    "\<forall>j<length (rows tp).
        length (vss ! j) = length (cells (rows tp ! j)) \<and>
        (\<forall>k<length (cells (rows tp ! j)).
           highlighted (vss ! j ! k) =
             (table a = table_index tp \<and> row a = int j \<and> cell a = int k) \<and>
           onPointerOver (vss ! j ! k) = HoverCell (table_index tp) (int j) (int k) \<and>
           lines (vss ! j ! k) =
             [''Table: '' @ table_name tp, ''Row: '' @ row_name (rows tp ! j),
              ''Cell: '' @ cell_name (cells (rows tp ! j) ! k)])"
    by auto
  have cellkids: "Cell (?sc\<lparr>RowContext := Some (?rp j)\<rparr>)
        \<lparr>cell_name = cell_name (cells (rows tp ! j) ! k), cell_index = int k\<rparr> = Inr (vss ! j ! k)"
    if "j < length (rows tp)" "k < length (cells (rows tp ! j))" for j k
  proof -
    from Row_children [OF sc, of "?rp j"] kids that(1) have
      "\<forall>k<length (cells (rows tp ! j)).
          Cell (?sc\<lparr>RowContext := Some (?rp j)\<rparr>)
            \<lparr>cell_name = cell_name (cells (rows tp ! j) ! k), cell_index = int k\<rparr> =
          Inr (vss ! j ! k)"
      by auto
    with that(2) show ?thesis by blast
  qed
  show ?thesis
    using vss kids shape cellkids by (intro exI [of _ vss]) simp
qed

theorem child_props_amended_witness:
  "AppContext \<lparr>AppContext = Some \<lparr>table = 0, row = 0, cell = 1\<rparr>, TableContext = None,
      RowContext = None\<rparr> = Some \<lparr>table = 0, row = 0, cell = 1\<rparr> \<and>
   Table \<lparr>AppContext = Some \<lparr>table = 0, row = 0, cell = 1\<rparr>, TableContext = None,
      RowContext = None\<rparr> (Table_props (scenario ! 0) 0) =
     Inr [[\<lparr>onPointerOver = HoverCell 0 0 0, onPointerOut = HoverReset, background = ''none'',
            lines = [''Table: T0'', ''Row: R0'', ''Cell: C0'']\<rparr>,
           \<lparr>onPointerOver = HoverCell 0 0 1, onPointerOut = HoverReset, background = ''skyblue'',
            lines = [''Table: T0'', ''Row: R0'', ''Cell: C1'']\<rparr>]] \<and>
   Row \<lparr>AppContext = Some \<lparr>table = 0, row = 0, cell = 1\<rparr>,
        TableContext = Some (Table_props (scenario ! 0) 0), RowContext = None\<rparr>
     \<lparr>row_name = ''R0'', cells = [\<lparr>cell_name = ''C0''\<rparr>, \<lparr>cell_name = ''C1''\<rparr>], row_index = 0\<rparr> =
     Inr [\<lparr>onPointerOver = HoverCell 0 0 0, onPointerOut = HoverReset, background = ''none'',
           lines = [''Table: T0'', ''Row: R0'', ''Cell: C0'']\<rparr>,
          \<lparr>onPointerOver = HoverCell 0 0 1, onPointerOut = HoverReset, background = ''skyblue'',
           lines = [''Table: T0'', ''Row: R0'', ''Cell: C1'']\<rparr>]"
proof -
  let ?sc = "\<lparr>AppContext = Some \<lparr>table = 0, row = 0, cell = 1\<rparr>, TableContext = None,
      RowContext = None\<rparr>"
  have h: "AppContext ?sc = Some \<lparr>table = 0, row = 0, cell = 1\<rparr>" by simp
  show ?thesis
    using h child_props_amended [OF h, of "Table_props (scenario ! 0) 0"]
    by (simp add: Table_def Row_def For_def Cell_def useApp_def useTable_def useRow_def
        Table_props_def Row_props_def Cell_props_def scenario_def)
qed

text \<open>
  C3. At the mount and after every sequence of \<open>hoverCell\<close> and \<open>hoverReset\<close> calls whose
  \<open>hoverCell\<close> arguments are coordinates of existing cells of the dataset, the three fields
  of the selection are either all \<open>-1\<close> or together the coordinate of an existing cell; the
  rendered tree then has no highlighted cell in the first case and exactly one in the
  second.
\<close>

theorem selection_invariant:
  assumes "list_all (valid_call d) es"
  shows "Selection_inv d (app (run es (App_mount d))) \<and>
         (\<exists>vs. App (run es (App_mount d)) = Inr vs \<and>
            length (filter highlighted (rendered_cells vs)) =
              (if table (app (run es (App_mount d))) = - 1 then 0 else 1))"
proof -
  have i: "Selection_inv d (app (run es (App_mount d)))"
    using assms by (rule inv_run) (simp add: Selection_inv_def App_mount_def)
  have "tables (run es (App_mount d)) = d"
    by (simp add: tables_run App_mount_def)
  with i inv_highlights [of "run es (App_mount d)"] show ?thesis by simp
qed

theorem selection_invariant_witness:
  "list_all (valid_call scenario) [HoverCell 0 0 1, HoverReset, HoverCell 0 0 0] \<and>
   Selection_inv scenario
     (app (run [HoverCell 0 0 1, HoverReset, HoverCell 0 0 0] (App_mount scenario))) \<and>
   app (run [HoverCell 0 0 1, HoverReset, HoverCell 0 0 0] (App_mount scenario)) =
     \<lparr>table = 0, row = 0, cell = 0\<rparr> \<and>
   (\<exists>vs. App (run [HoverCell 0 0 1, HoverReset, HoverCell 0 0 0] (App_mount scenario)) = Inr vs \<and>
      length (filter highlighted (rendered_cells vs)) = 1)"
proof -
  have h: "list_all (valid_call scenario) [HoverCell 0 0 1, HoverReset, HoverCell 0 0 0]"
    by (simp add: valid_coord_def scenario_def)
  show ?thesis
    using h selection_invariant [OF h] by (simp add: app_hoverCell)
qed

text \<open>
  C4. For every selection and all arguments \<open>(t, r, c)\<close>, \<open>hoverCell t r c\<close> overwrites
  the three fields of the selection with \<open>(t, r, c)\<close>, whatever they are (no bounds are
  checked), and \<open>hoverReset\<close> sets all three to \<open>-1\<close>. Neither has a failure path: both
  return a store for every input, and the store differs from the old one in the selection
  only.
\<close>

theorem hover_total_overwrite:
  "hoverCell t r c s = s\<lparr>app := \<lparr>table = t, row = r, cell = c\<rparr>\<rparr> \<and>
   hoverReset s = s\<lparr>app := \<lparr>table = - 1, row = - 1, cell = - 1\<rparr>\<rparr>"
  by (simp add: hoverCell_def hoverReset_def setApp_def produce_def)

text \<open>
  C5. After \<open>hoverReset\<close> from any store, and at the mount of any dataset, the tree
  renders and none of its cells is highlighted: the positions \<open>For\<close> hands out are never
  negative, so none equals \<open>-1\<close>.
\<close>

theorem reset_highlights_none:
  "(\<exists>vs. App (hoverReset s) = Inr vs \<and> (\<forall>v\<in>set (rendered_cells vs). \<not> highlighted v)) \<and>
   (\<exists>vs. App (App_mount d) = Inr vs \<and> (\<forall>v\<in>set (rendered_cells vs). \<not> highlighted v))"
proof
  have "table (app (hoverReset s)) = - 1" by (simp add: app_hoverReset)
  from none_selected [OF this]
  show "\<exists>vs. App (hoverReset s) = Inr vs \<and> (\<forall>v\<in>set (rendered_cells vs). \<not> highlighted v)"
    by (simp add: filter_empty_conv)
next
  have "table (app (App_mount d)) = - 1" by (simp add: App_mount_def)
  from none_selected [OF this]
  show "\<exists>vs. App (App_mount d) = Inr vs \<and> (\<forall>v\<in>set (rendered_cells vs). \<not> highlighted v)"
    by (simp add: filter_empty_conv)
qed

theorem reset_highlights_none_witness:
  "(\<exists>vs. App (hoverReset (hoverCell 0 0 1 (App_mount scenario))) = Inr vs \<and>
      length (rendered_cells vs) = 2 \<and> filter highlighted (rendered_cells vs) = []) \<and>
   (\<exists>vs. App (App_mount scenario) = Inr vs \<and>
      length (rendered_cells vs) = 2 \<and> filter highlighted (rendered_cells vs) = [])"
  using reset_highlights_none [of "hoverCell 0 0 1 (App_mount scenario)" scenario]
  by (simp add: scenario_reset scenario_mount rendered_cells_def highlighted_def)

text \<open>
  C6. Both mutators are idempotent: a second \<open>hoverReset\<close> leaves the store as the first
  one left it (all \<open>-1\<close>), and a second \<open>hoverCell t r c\<close> leaves the store, and with it
  the whole rendered tree (every cell's highlight), as the first one left it.
\<close>

theorem hover_idempotent:
  "hoverReset (hoverReset s) = hoverReset s \<and>
   app (hoverReset (hoverReset s)) = \<lparr>table = - 1, row = - 1, cell = - 1\<rparr> \<and>
   hoverCell t r c (hoverCell t r c s) = hoverCell t r c s \<and>
   App (hoverCell t r c (hoverCell t r c s)) = App (hoverCell t r c s)"
  by (simp add: hoverCell_def hoverReset_def setApp_def produce_def)


text \<open>
  C8. A \<open>Cell\<close> constructed where the \<open>App\<close>, the \<open>Table\<close> or the \<open>Row\<close> context was never
  provided does not render: its construction throws a TypeError.
\<close>

theorem Cell_outside_scope_fails:
  "AppContext sc = None \<or> TableContext sc = None \<or> RowContext sc = None \<Longrightarrow>
   Cell sc props = Inl TypeError"
  by (auto simp: Cell_def useApp_def useTable_def useRow_def split: option.splits)

theorem Cell_outside_scope_fails_witness:
  "Cell \<lparr>AppContext = None, TableContext = None, RowContext = None\<rparr>
     \<lparr>cell_name = ''C0'', cell_index = 0\<rparr> = Inl TypeError \<and>
   Cell \<lparr>AppContext = Some \<lparr>table = - 1, row = - 1, cell = - 1\<rparr>, TableContext = None,
         RowContext = None\<rparr>
     \<lparr>cell_name = ''C0'', cell_index = 0\<rparr> = Inl TypeError \<and>
   Cell \<lparr>AppContext = Some \<lparr>table = - 1, row = - 1, cell = - 1\<rparr>,
         TableContext = Some (Table_props (scenario ! 0) 0), RowContext = None\<rparr>
     \<lparr>cell_name = ''C0'', cell_index = 0\<rparr> = Inl TypeError"
  using
    Cell_outside_scope_fails [of "\<lparr>AppContext = None, TableContext = None, RowContext = None\<rparr>"
      "\<lparr>cell_name = ''C0'', cell_index = 0\<rparr>"]
    Cell_outside_scope_fails [of "\<lparr>AppContext = Some \<lparr>table = - 1, row = - 1, cell = - 1\<rparr>,
        TableContext = None, RowContext = None\<rparr>" "\<lparr>cell_name = ''C0'', cell_index = 0\<rparr>"]
    Cell_outside_scope_fails [of "\<lparr>AppContext = Some \<lparr>table = - 1, row = - 1, cell = - 1\<rparr>,
        TableContext = Some (Table_props (scenario ! 0) 0), RowContext = None\<rparr>"
      "\<lparr>cell_name = ''C0'', cell_index = 0\<rparr>"]
  by simp

text \<open>
  C9. No sequence of \<open>hoverCell\<close> and \<open>hoverReset\<close> calls changes the tables store: after
  any sequence it still holds what it held before, which from the mount on is the
  dataset.
\<close>

theorem dataset_frame:
  "tables (run es s) = tables s \<and> tables (run es (App_mount d)) = d"
  by (simp add: tables_run App_mount_def)

text \<open>
  C10. Since "none" is the index \<open>-1\<close>, \<open>hoverCell (-1) (-1) (-1)\<close> does what
  \<open>hoverReset\<close> does: from every store both give the same store, which is the old one
  with the selection all \<open>-1\<close> (the reset state), and the same rendered tree, in which no
  cell is highlighted.
\<close>

theorem hoverCell_sentinel_is_reset:
  "hoverCell (- 1) (- 1) (- 1) s = hoverReset s \<and>
   hoverCell (- 1) (- 1) (- 1) s = s\<lparr>app := \<lparr>table = - 1, row = - 1, cell = - 1\<rparr>\<rparr> \<and>
   app (hoverCell (- 1) (- 1) (- 1) s) = \<lparr>table = - 1, row = - 1, cell = - 1\<rparr> \<and>
   app (hoverReset s) = \<lparr>table = - 1, row = - 1, cell = - 1\<rparr> \<and>
   (\<exists>vs. App (hoverCell (- 1) (- 1) (- 1) s) = Inr vs \<and> App (hoverReset s) = Inr vs \<and>
      length vs = length (tables s) \<and> filter highlighted (rendered_cells vs) = [])"
proof -
  have e: "hoverCell (- 1) (- 1) (- 1) s = hoverReset s"
    by (simp add: hoverCell_def hoverReset_def)
  have u: "hoverReset s = s\<lparr>app := \<lparr>table = - 1, row = - 1, cell = - 1\<rparr>\<rparr>"
    by (simp add: hoverReset_def setApp_def produce_def)
  have a: "app (hoverReset s) = \<lparr>table = - 1, row = - 1, cell = - 1\<rparr>"
    by (rule app_hoverReset)
  have "table (app (hoverReset s)) = - 1" by (simp add: a)
  from none_selected [OF this] obtain vs where
    vs: "App (hoverReset s) = Inr vs" "filter highlighted (rendered_cells vs) = []"
    by blast
  from App_shape [of "hoverReset s"] vs(1) have "length vs = length (tables s)"
    by (auto simp: tables_hoverReset)
  with e u a vs show ?thesis by simp
qed

end
